theory Spec2Isabelle
  imports Main
begin

section \<open>Storage initialisation (main.ts, lines 84-117)\<close>

text \<open>
  The SQLite database is a store of two tables. A table that has not been created is
  \<open>None\<close>. A settings row holds the two columns the INSERT of line 111 names; the
  column \<open>extractMsi\<close> holds the integer the source writes (\<open>0\<close>). The rows of the
  instances table are not touched by main.ts, so their type is a parameter.
\<close>

record settings_row =
  hostname :: string
  extractMsi :: int

record 'i store =
  settings_tbl :: "settings_row list option"
  instances_tbl :: "'i list option"

text \<open>What can be thrown while the block of lines 89-117 runs.\<close>

datatype error =
  FileError string  \<comment> \<open>\<open>fs.readFileSync\<close> could not read the file at this path\<close>
| TypeError string  \<comment> \<open>a property of \<open>undefined\<close> was read\<close>

text \<open>A JavaScript integer read as a condition: \<open>0\<close> is false.\<close>

definition truthy :: "int \<Rightarrow> bool" where
  "truthy n = (n \<noteq> 0)"

text \<open>
  \<open>getAssetPath\<close> (lines 80-82) joins \<open>RESOURCES_PATH\<close> and the path it is given;
  \<open>readFileSync\<close> returns the content of a file or throws. The file system is a map
  from paths to contents.
\<close>

definition getAssetPath :: "string \<Rightarrow> string \<Rightarrow> string" where
  "getAssetPath resources p = resources @ ''/'' @ p"

definition readFileSync :: "(string \<rightharpoonup> string) \<Rightarrow> string \<Rightarrow> error + string" where
  "readFileSync fs p = (case fs p of None \<Rightarrow> Inl (FileError p) | Some s \<Rightarrow> Inr s)"

text \<open>
  \<open>db.all('SELECT * FROM settings', [], callback)\<close> hands the callback an error and
  no rows, or no error and the rows. The query fails when the environment reports an
  input/output failure (\<open>io\<close>) or when the table does not exist.
\<close>

definition db_all_settings ::
  "string option \<Rightarrow> 'i store \<Rightarrow> string option \<times> settings_row list option" where
  "db_all_settings io st =
     (case io of
        Some e \<Rightarrow> (Some e, None)
      | None \<Rightarrow>
          (case settings_tbl st of
             None \<Rightarrow> (Some ''SQLITE_ERROR: no such table: settings'', None)
           | Some rows \<Rightarrow> (None, Some rows)))"

text \<open>
  The statement of line 111:
  \<^verbatim>\<open>INSERT INTO settings (hostname, extractMsi) VALUES ("localhost", 0);\<close>
\<close>

definition default_settings :: settings_row where
  "default_settings = \<lparr>hostname = ''localhost'', extractMsi = 0\<rparr>"

definition insert_settings :: "settings_row \<Rightarrow> 'i store \<Rightarrow> 'i store" where
  "insert_settings r st =
     (case settings_tbl st of
        None \<Rightarrow> st
      | Some rows \<Rightarrow> st\<lparr>settings_tbl := Some (rows @ [r])\<rparr>)"

text \<open>
  The callback of lines 102-116. It returns what it wrote to the console (one entry for
  each call of \<open>console.error\<close> or \<open>console.log\<close>, the list of its arguments) and
  either the store it leaves or the error it throws. The error branch of line 103 logs and falls
  through to \<open>rows.length\<close>, which throws when \<open>rows\<close> is undefined.
  \<^verbatim>\<open>
  (err, rows) => {
    if (err) { console.error(err.message); }
    if (rows.length == 0) {
      console.log('Initalizing SQLite...');
      db.prepare(`INSERT ...`).run().finalize();
    }
  }
  \<close>
\<close>

definition settings_callback ::
  "string option \<Rightarrow> settings_row list option \<Rightarrow> 'i store \<Rightarrow>
     string list list \<times> (error + 'i store)" where
  "settings_callback err rows st =
     (let out = (case err of Some m \<Rightarrow> [[m]] | None \<Rightarrow> [])
      in case rows of
           None \<Rightarrow> (out, Inl (TypeError ''rows.length''))
         | Some rs \<Rightarrow>
             if length rs = 0
             then (out @ [[''Initalizing SQLite...'']],
                   Inr (insert_settings default_settings st))
             else (out, Inr st))"

text \<open>
  The block of lines 89-117. Its synchronous part reads the two schema files, and a
  file that cannot be read throws there. \<open>exec\<close> is the effect on the store of running
  the text of a schema file as one prepared statement; the two schema files are not
  part of main.ts, so their effect is a parameter.
\<close>

definition read_schema :: "(string \<rightharpoonup> string) \<Rightarrow> string \<Rightarrow> error + string \<times> string" where
  "read_schema fs resources =
     (case readFileSync fs (getAssetPath resources ''sql/create-settings.sql'') of
        Inl e \<Rightarrow> Inl e
      | Inr sql1 \<Rightarrow>
          (case readFileSync fs (getAssetPath resources ''sql/create-instances.sql'') of
             Inl e \<Rightarrow> Inl e
           | Inr sql2 \<Rightarrow> Inr (sql1, sql2)))"

definition create_schema ::
  "(string \<Rightarrow> 'i store \<Rightarrow> 'i store) \<Rightarrow> string \<Rightarrow> string \<Rightarrow> 'i store \<Rightarrow> 'i store" where
  "create_schema exec sql1 sql2 st = exec sql2 (exec sql1 st)"

definition initialize ::
  "(string \<rightharpoonup> string) \<Rightarrow> string \<Rightarrow> (string \<Rightarrow> 'i store \<Rightarrow> 'i store) \<Rightarrow>
     string option \<Rightarrow> 'i store \<Rightarrow> string list list \<times> (error + 'i store)" where
  "initialize fs resources exec io st =
     (case read_schema fs resources of
        Inl e \<Rightarrow> ([], Inl e)
      | Inr (sql1, sql2) \<Rightarrow>
          (let st' = create_schema exec sql1 sql2 st;
               (err, rows) = db_all_settings io st'
           in settings_callback err rows st'))"

section \<open>The recurring timer (node-cron)\<close>

text \<open>
  \<open>cron.schedule\<close> takes a pattern of five fields: minute, hour, day of month, month and
  day of week. A field is \<open>*\<close>, a step \<open>*/n\<close> or a number. The library runs the task
  at second 0 of every minute whose date matches all five fields; a step \<open>*/n\<close>
  matches the values that \<open>n\<close> divides.
\<close>

datatype cron_field = Any | Every nat | Exactly nat

record cron_expr =
  c_minute :: cron_field
  c_hour :: cron_field
  c_mday :: cron_field
  c_month :: cron_field
  c_wday :: cron_field

definition is_digit :: "char \<Rightarrow> bool" where
  "is_digit c = (48 \<le> (of_char c :: nat) \<and> (of_char c :: nat) \<le> 57)"

definition parse_nat :: "string \<Rightarrow> nat option" where
  "parse_nat s =
     (if s \<noteq> [] \<and> list_all is_digit s
      then Some (foldl (\<lambda>n c. 10 * n + (of_char c - 48)) 0 s)
      else None)"

definition parse_field :: "string \<Rightarrow> cron_field option" where
  "parse_field s =
     (if s = ''*'' then Some Any
      else if take 2 s = ''*/''
      then (case parse_nat (drop 2 s) of
              Some n \<Rightarrow> if n = 0 then None else Some (Every n)
            | None \<Rightarrow> None)
      else map_option Exactly (parse_nat s))"

fun split_spaces :: "string \<Rightarrow> string list" where
  "split_spaces [] = [[]]"
| "split_spaces (c # cs) =
     (if c = CHR '' '' then [] # split_spaces cs
      else (case split_spaces cs of w # ws \<Rightarrow> (c # w) # ws | [] \<Rightarrow> [[c]]))"

definition parse_cron :: "string \<Rightarrow> cron_expr option" where
  "parse_cron s =
     (case map parse_field (split_spaces s) of
        [Some mi, Some h, Some md, Some mo, Some wd] \<Rightarrow>
          Some \<lparr>c_minute = mi, c_hour = h, c_mday = md, c_month = mo, c_wday = wd\<rparr>
      | _ \<Rightarrow> None)"

text \<open>
  The wall clock counts seconds of local time from 1 January 1970, 00:00:00 (a
  Thursday). \<open>civil\<close> gives the day of the month and the month of a day number.
\<close>

record date =
  d_second :: nat
  d_minute :: nat
  d_hour :: nat
  d_mday :: nat
  d_month :: nat
  d_wday :: nat

definition civil :: "nat \<Rightarrow> nat \<times> nat" where
  "civil z =
     (let doe = (z + 719468) mod 146097;
          yoe = (doe - doe div 1460 + doe div 36524 - doe div 146096) div 365;
          doy = doe - (365 * yoe + yoe div 4 - yoe div 100);
          mp = (5 * doy + 2) div 153
      in (doy - (153 * mp + 2) div 5 + 1, if mp < 10 then mp + 3 else mp - 9))"

definition date_of :: "nat \<Rightarrow> date" where
  "date_of t =
     \<lparr>d_second = t mod 60, d_minute = t div 60 mod 60, d_hour = t div 3600 mod 24,
      d_mday = fst (civil (t div 86400)), d_month = snd (civil (t div 86400)),
      d_wday = (t div 86400 + 4) mod 7\<rparr>"

fun field_ok :: "cron_field \<Rightarrow> nat \<Rightarrow> bool" where
  "field_ok Any x = True"
| "field_ok (Every n) x = (x mod n = 0)"
| "field_ok (Exactly k) x = (x = k)"

definition cron_match :: "cron_expr \<Rightarrow> date \<Rightarrow> bool" where
  "cron_match e d =
     (d_second d = 0 \<and> field_ok (c_minute e) (d_minute d) \<and> field_ok (c_hour e) (d_hour d)
      \<and> field_ok (c_mday e) (d_mday d) \<and> field_ok (c_month e) (d_month d)
      \<and> field_ok (c_wday e) (d_wday d))"

section \<open>The scheduler (main.ts, lines 40, 85-87, 124, 149-151, 212-252)\<close>

text \<open>
  \<open>GetInstances\<close> is imported from \<open>./actions/getInstances\<close> and is not part of main.ts.
  The model records each invocation: the time, the call site (line 248, the initial
  run, or line 250, the callback of the schedule) and the window it was given. A run
  is in progress from its invocation until the environment reports its end.
\<close>

datatype call_site = Initial | Scheduled

record call =
  at :: nat
  site :: call_site
  window :: nat

text \<open>
  The state of the main process: the wall clock in seconds, the variable
  \<open>mainWindow\<close> of line 40 (\<open>None\<close> is \<open>null\<close>), the deadlines of the pending
  \<open>setTimeout\<close> callbacks of line 238, the tasks armed by \<open>cron.schedule\<close> (each with the
  window its callback has captured), the invocations of \<open>GetInstances\<close>, the number of
  runs that have ended, and the console.
\<close>

record proc =
  now :: nat
  mainWindow :: "nat option"
  timeouts :: "nat list"
  schedules :: "(cron_expr \<times> nat) list"
  calls :: "call list"
  finished :: nat
  console :: "string list list"

definition boot :: "nat \<Rightarrow> proc" where
  "boot t0 =
     \<lparr>now = t0, mainWindow = None, timeouts = [], schedules = [], calls = [],
      finished = 0, console = []\<rparr>"

text \<open>
  The module's top level, for a process that holds the single-instance lock: the
  block of lines 89-117 reads the schema files while the module loads, so a file that
  cannot be read throws before \<open>app.whenReady\<close> is reached and nothing is registered.
\<close>

definition main :: "(string \<rightharpoonup> string) \<Rightarrow> string \<Rightarrow> nat \<Rightarrow> error + proc" where
  "main fs resources t0 =
     (case read_schema fs resources of Inl e \<Rightarrow> Inl e | Inr _ \<Rightarrow> Inr (boot t0))"

text \<open>
  Lines 85-87, the callback of \<open>new sqlite.Database\<close>:
  \<^verbatim>\<open>(err) => { if (err) console.error('Database opening error: ', err); }\<close>
\<close>

definition open_callback :: "string option \<Rightarrow> proc \<Rightarrow> proc" where
  "open_callback err st =
     (case err of
        Some e \<Rightarrow> st\<lparr>console := console st @ [[''Database opening error: '', e]]\<rparr>
      | None \<Rightarrow> st)"

definition GetInstances :: "call_site \<Rightarrow> nat \<Rightarrow> proc \<Rightarrow> proc" where
  "GetInstances s w st = st\<lparr>calls := calls st @ [\<lparr>at = now st, site = s, window = w\<rparr>]\<rparr>"

text \<open>
  \<open>cron.schedule(pattern, callback)\<close> arms a task; the callback calls
  \<open>GetInstances(mainWindow, db)\<close> with the parameter \<open>mainWindow\<close> of \<open>StartTasks\<close>, the
  window captured when the task was armed. The library rejects a pattern it cannot
  parse, and then no task is armed; the pattern of line 249 parses (\<open>parse_every_15\<close>).
\<close>

definition cron_schedule :: "string \<Rightarrow> nat \<Rightarrow> proc \<Rightarrow> proc" where
  "cron_schedule pattern w st =
     (case parse_cron pattern of
        Some e \<Rightarrow> st\<lparr>schedules := schedules st @ [(e, w)]\<rparr>
      | None \<Rightarrow> st)"

text \<open>
  Lines 246-252:
  \<^verbatim>\<open>
  function StartTasks(mainWindow: BrowserWindow) {
    console.log('Starting tasks');
    GetInstances(mainWindow, db);
    cron.schedule('*/15 * * * *', () => { GetInstances(mainWindow, db); });
  }
  \<close>
\<close>

definition StartTasks :: "nat \<Rightarrow> proc \<Rightarrow> proc" where
  "StartTasks w st =
     cron_schedule ''*/15 * * * *'' w
       (GetInstances Initial w (st\<lparr>console := console st @ [[''Starting tasks'']]\<rparr>))"

text \<open>Lines 238-240: \<^verbatim>\<open>setTimeout(function () { if (mainWindow != null) StartTasks(mainWindow); }, 5000)\<close>.
  \<open>on_ready\<close> registers the callback, \<open>on_timeout\<close> is the callback.\<close>

definition on_timeout :: "proc \<Rightarrow> proc" where
  "on_timeout st = (case mainWindow st of Some w \<Rightarrow> StartTasks w st | None \<Rightarrow> st)"

definition on_ready :: "proc \<Rightarrow> proc" where
  "on_ready st = st\<lparr>timeouts := timeouts st @ [now st + 5000 div 1000]\<rparr>"

text \<open>The callback of an armed task, run when the clock matches its pattern.\<close>

definition cron_task :: "cron_expr \<times> nat \<Rightarrow> proc \<Rightarrow> proc" where
  "cron_task task st =
     (if cron_match (fst task) (date_of (now st)) then GetInstances Scheduled (snd task) st
      else st)"

text \<open>
  One second of the event loop: the clock advances, the tasks armed before this second
  whose pattern matches the new time run, and the timeouts that are due run and are
  removed.
\<close>

definition second :: "proc \<Rightarrow> proc" where
  "second st =
     (let st1 = st\<lparr>now := now st + 1\<rparr>;
          st2 = fold cron_task (schedules st1) st1;
          due = filter (\<lambda>d. d \<le> now st2) (timeouts st2);
          st3 = st2\<lparr>timeouts := filter (\<lambda>d. \<not> d \<le> now st2) (timeouts st2)\<rparr>
      in fold (\<lambda>d. on_timeout) due st3)"

text \<open>
  The events of the process: the database reports that it is open or failed to open,
  \<open>app.whenReady()\<close> resolves, \<open>createWindow\<close> reaches line 124
  (\<open>mainWindow = new BrowserWindow\<close>), the window's \<open>closed\<close> event (line 150,
  \<open>mainWindow = null\<close>), a run of \<open>GetInstances\<close> ends, a second passes.
\<close>

datatype event =
  DbOpened "string option"
| Ready
| WindowCreated nat
| WindowClosed
| RunFinished
| Second

fun step :: "event \<Rightarrow> proc \<Rightarrow> proc" where
  "step (DbOpened err) st = open_callback err st"
| "step Ready st = on_ready st"
| "step (WindowCreated w) st = st\<lparr>mainWindow := Some w\<rparr>"
| "step WindowClosed st = st\<lparr>mainWindow := None\<rparr>"
| "step RunFinished st =
     (if finished st < length (calls st) then st\<lparr>finished := finished st + 1\<rparr> else st)"
| "step Second st = second st"

definition run :: "event list \<Rightarrow> proc \<Rightarrow> proc" where
  "run evs st = fold step evs st"

text \<open>The runs in progress, and the times of the runs started by the schedule.\<close>

definition in_flight :: "proc \<Rightarrow> nat" where
  "in_flight st = length (calls st) - finished st"

definition scheduled_times :: "proc \<Rightarrow> nat list" where
  "scheduled_times st = map at (filter (\<lambda>c. site c = Scheduled) (calls st))"

definition initial_runs :: "proc \<Rightarrow> call list" where
  "initial_runs st = filter (\<lambda>c. site c = Initial) (calls st)"

text \<open>The invocations made by the armed tasks \<open>ts\<close> when the clock reaches \<open>t\<close>.\<close>

definition tick_calls :: "(cron_expr \<times> nat) list \<Rightarrow> nat \<Rightarrow> call list" where
  "tick_calls ts t =
     map (\<lambda>task. \<lparr>at = t, site = Scheduled, window = snd task\<rparr>)
       (filter (\<lambda>task. cron_match (fst task) (date_of t)) ts)"

section \<open>The schema files and the reconciler, from the specification\<close>

text \<open>
  Modelled from the spec: the text of \<open>sql/create-settings.sql\<close>, a file that main.ts
  reads and that is not among the sources. Section 4.1 says that initialisation creates
  the tables if absent and is a no-op otherwise.
\<close>

definition create_settings_sql :: string where
  "create_settings_sql = ''CREATE TABLE IF NOT EXISTS settings''"

text \<open>
  Modelled from the spec: the text of \<open>sql/create-instances.sql\<close>, not among the
  sources either (section 4.1, as above).
\<close>

definition create_instances_sql :: string where
  "create_instances_sql = ''CREATE TABLE IF NOT EXISTS instances''"

text \<open>
  Modelled from the spec: the two schema files at the paths main.ts reads them from.
\<close>

definition schema_files :: "string \<Rightarrow> (string \<rightharpoonup> string)" where
  "schema_files resources =
     [getAssetPath resources ''sql/create-settings.sql'' \<mapsto> create_settings_sql,
      getAssetPath resources ''sql/create-instances.sql'' \<mapsto> create_instances_sql]"

text \<open>
  Modelled from the spec: the effect of running a schema statement (section 4.1:
  "creates tables if absent; no-op otherwise"). A new table is empty.
\<close>

definition schema_exec :: "string \<Rightarrow> 'i store \<Rightarrow> 'i store" where
  "schema_exec sql st =
     (if sql = create_settings_sql
      then (case settings_tbl st of None \<Rightarrow> st\<lparr>settings_tbl := Some []\<rparr> | Some _ \<Rightarrow> st)
      else if sql = create_instances_sql
      then (case instances_tbl st of None \<Rightarrow> st\<lparr>instances_tbl := Some []\<rparr> | Some _ \<Rightarrow> st)
      else st)"

text \<open>
  Modelled from the spec: a fetched instance record (section 3: an identity key and
  the mutable attributes, status and metadata fields). The fetcher and the reconciler
  are behind \<open>GetInstances\<close> and not among the sources.
\<close>

record observed =
  ident :: string
  status :: string
  metadata :: "(string \<times> string) list"

text \<open>
  Modelled from the spec: a stored instance row (section 3: identity key, mutable
  attributes and a last-seen timestamp).
\<close>

record instance_row =
  row_id :: string
  row_status :: string
  row_metadata :: "(string \<times> string) list"
  last_seen :: nat

text \<open>
  Modelled from the spec: the instances table as the list of its rows, with a count of
  the writes made to it.
\<close>

record instance_store =
  inst_rows :: "instance_row list"
  inst_writes :: nat

text \<open>Modelled from the spec: the error of a failed write (section 7).\<close>

datatype storage_error = StorageWriteError string

text \<open>Modelled from the spec: what \<open>upsertInstance\<close> reports (section 4.1).\<close>

datatype upsert_result = Created | Updated

text \<open>Modelled from the spec: the look-up of a row by identity key (section 4.3).\<close>

definition lookup_row :: "string \<Rightarrow> instance_row list \<Rightarrow> instance_row option" where
  "lookup_row k rs = find (\<lambda>x. row_id x = k) rs"

text \<open>Modelled from the spec: no mutable attribute of the fetched record differs from the
  stored row (section 4.3).\<close>

definition same_attributes :: "observed \<Rightarrow> instance_row \<Rightarrow> bool" where
  "same_attributes r x = (row_status x = status r \<and> row_metadata x = metadata r)"

text \<open>
  Modelled from the spec: \<open>upsertInstance(record)\<close> (section 4.1) "inserts if identity
  key is new, otherwise updates mutable fields and the timestamp; returns whether the
  row was newly created or updated; fails with StorageWriteError". \<open>wfail\<close> says for
  which records the storage refuses the write, \<open>t\<close> is the time of the run.
\<close>

definition upsertInstance ::
  "(observed \<Rightarrow> bool) \<Rightarrow> nat \<Rightarrow> observed \<Rightarrow> instance_store \<Rightarrow>
     storage_error + upsert_result \<times> instance_store" where
  "upsertInstance wfail t r st =
     (if wfail r then Inl (StorageWriteError (ident r))
      else if lookup_row (ident r) (inst_rows st) = None
      then Inr (Created,
             st\<lparr>inst_rows := inst_rows st @ [\<lparr>row_id = ident r, row_status = status r,
                                     row_metadata = metadata r, last_seen = t\<rparr>],
                inst_writes := inst_writes st + 1\<rparr>)
      else Inr (Updated,
             st\<lparr>inst_rows := map (\<lambda>x. if row_id x = ident r
                                 then x\<lparr>row_status := status r, row_metadata := metadata r,
                                        last_seen := t\<rparr>
                                 else x) (inst_rows st),
                inst_writes := inst_writes st + 1\<rparr>))"

text \<open>
  Modelled from the spec: the change-set of section 4.3, with the identity keys of the
  records whose write failed.
\<close>

record change_set =
  added :: "string list"
  updated :: "string list"
  unchanged :: "string list"
  failed :: "string list"

text \<open>Modelled from the spec: the change-set before any record is reconciled.\<close>

definition no_changes :: change_set where
  "no_changes = \<lparr>added = [], updated = [], unchanged = [], failed = []\<rparr>"

text \<open>
  Modelled from the spec: one record of \<open>reconcile\<close> (section 4.3): "look up by identity
  key in the Persistent Store; if absent, mark as added and upsert; if present and any
  mutable attribute differs, mark as updated and upsert; if present and unchanged, mark
  as unchanged (no write)". A failed write is reported and the batch goes on.
\<close>

definition reconcile_one ::
  "(observed \<Rightarrow> bool) \<Rightarrow> nat \<Rightarrow> observed \<Rightarrow> change_set \<times> instance_store \<Rightarrow>
     change_set \<times> instance_store" where
  "reconcile_one wfail t r acc =
     (let cs = fst acc; st = snd acc
      in case lookup_row (ident r) (inst_rows st) of
           None \<Rightarrow>
             (case upsertInstance wfail t r st of
                Inl e \<Rightarrow> (cs\<lparr>failed := failed cs @ [ident r]\<rparr>, st)
              | Inr res \<Rightarrow> (cs\<lparr>added := added cs @ [ident r]\<rparr>, snd res))
         | Some x \<Rightarrow>
             if same_attributes r x then (cs\<lparr>unchanged := unchanged cs @ [ident r]\<rparr>, st)
             else
               (case upsertInstance wfail t r st of
                  Inl e \<Rightarrow> (cs\<lparr>failed := failed cs @ [ident r]\<rparr>, st)
                | Inr res \<Rightarrow> (cs\<lparr>updated := updated cs @ [ident r]\<rparr>, snd res)))"

text \<open>Modelled from the spec: \<open>reconcile(fetchedRecords)\<close>, the records taken in sequence
  (section 4.3).\<close>

definition reconcile ::
  "(observed \<Rightarrow> bool) \<Rightarrow> nat \<Rightarrow> observed list \<Rightarrow> instance_store \<Rightarrow>
     change_set \<times> instance_store" where
  "reconcile wfail t fetched st = fold (reconcile_one wfail t) fetched (no_changes, st)"

text \<open>Modelled from the spec: a sequence of fetch results, each with the time of its run,
  reconciled one after the other (section 8).\<close>

definition reconcile_all ::
  "(observed \<Rightarrow> bool) \<Rightarrow> (nat \<times> observed list) list \<Rightarrow> instance_store \<Rightarrow> instance_store" where
  "reconcile_all wfail fetches st =
     fold (\<lambda>f s. snd (reconcile wfail (fst f) (snd f) s)) fetches st"

section \<open>Properties of storage initialisation\<close>

lemma initialize_readable:
  assumes "fs (getAssetPath resources ''sql/create-settings.sql'') = Some sql1"
    and "fs (getAssetPath resources ''sql/create-instances.sql'') = Some sql2"
  shows "initialize fs resources exec io st =
           (let st' = create_schema exec sql1 sql2 st;
                (err, rows) = db_all_settings io st'
            in settings_callback err rows st')"
  using assms by (simp add: initialize_def read_schema_def readFileSync_def)

text \<open>
  C1, as stated, fails: the settings table is empty after the schema statements, the
  startup query reports an error, and the callback inserts no row; it throws on
  \<open>rows.length\<close>.
\<close>

theorem empty_table_query_error_counterexample:
  "settings_tbl (create_schema (\<lambda>sql st. st) ''A'' ''B''
      \<lparr>settings_tbl = Some [], instances_tbl = Some ([] :: nat list)\<rparr>) = Some []
   \<and> initialize
        [''assets/sql/create-settings.sql'' \<mapsto> ''A'',
         ''assets/sql/create-instances.sql'' \<mapsto> ''B'']
        ''assets'' (\<lambda>sql st. st) (Some ''SQLITE_BUSY: database is locked'')
        \<lparr>settings_tbl = Some [], instances_tbl = Some ([] :: nat list)\<rparr>
     = ([[''SQLITE_BUSY: database is locked'']], Inl (TypeError ''rows.length''))
   \<and> snd (initialize
        [''assets/sql/create-settings.sql'' \<mapsto> ''A'',
         ''assets/sql/create-instances.sql'' \<mapsto> ''B'']
        ''assets'' (\<lambda>sql st. st) (Some ''SQLITE_BUSY: database is locked'')
        \<lparr>settings_tbl = Some [], instances_tbl = Some ([] :: nat list)\<rparr>)
     \<noteq> Inr \<lparr>settings_tbl = Some [default_settings], instances_tbl = Some []\<rparr>"
  by (simp add: initialize_def read_schema_def readFileSync_def getAssetPath_def
      create_schema_def db_all_settings_def settings_callback_def)

text \<open>
  C1, amended. On a launch where the startup query succeeds and returns no rows (the
  settings table is empty after the schema statements have run), the block inserts
  exactly one row, the defaults \<open>hostname = "localhost"\<close> and \<open>extractMsi = 0\<close>
  (false), so the table then holds exactly one row; on a launch where the query returns
  a row it inserts nothing and leaves the store as the schema statements left it.
\<close>

theorem first_run_inserts_defaults_once:
  assumes "fs (getAssetPath resources ''sql/create-settings.sql'') = Some sql1"
    and "fs (getAssetPath resources ''sql/create-instances.sql'') = Some sql2"
    and "db_all_settings io (create_schema exec sql1 sql2 st) = (None, Some rows)"
  shows "settings_tbl (create_schema exec sql1 sql2 st) = Some rows
       \<and> (rows = [] \<longrightarrow>
            snd (initialize fs resources exec io st) =
              Inr ((create_schema exec sql1 sql2 st)\<lparr>settings_tbl := Some [default_settings]\<rparr>))
       \<and> (rows \<noteq> [] \<longrightarrow>
            snd (initialize fs resources exec io st) = Inr (create_schema exec sql1 sql2 st))
       \<and> hostname default_settings = ''localhost''
       \<and> \<not> truthy (extractMsi default_settings)"
proof -
  have t: "settings_tbl (create_schema exec sql1 sql2 st) = Some rows"
    using assms(3) by (auto simp add: db_all_settings_def split: option.splits)
  show ?thesis
    using assms(3) t
    by (simp add: initialize_readable [OF assms(1,2)] settings_callback_def
        insert_settings_def default_settings_def truthy_def)
qed

theorem first_run_inserts_defaults_once_witness:
  "snd (initialize
          [''assets/sql/create-settings.sql'' \<mapsto> ''A'',
           ''assets/sql/create-instances.sql'' \<mapsto> ''B'']
          ''assets'' (\<lambda>sql st. st) None
          \<lparr>settings_tbl = Some [], instances_tbl = Some ([] :: nat list)\<rparr>)
     = Inr \<lparr>settings_tbl = Some [\<lparr>hostname = ''localhost'', extractMsi = 0\<rparr>],
            instances_tbl = Some []\<rparr>
   \<and> snd (initialize
          [''assets/sql/create-settings.sql'' \<mapsto> ''A'',
           ''assets/sql/create-instances.sql'' \<mapsto> ''B'']
          ''assets'' (\<lambda>sql st. st) None
          \<lparr>settings_tbl = Some [\<lparr>hostname = ''dev01'', extractMsi = 1\<rparr>],
           instances_tbl = Some ([] :: nat list)\<rparr>)
     = Inr \<lparr>settings_tbl = Some [\<lparr>hostname = ''dev01'', extractMsi = 1\<rparr>],
            instances_tbl = Some []\<rparr>"
  using
    first_run_inserts_defaults_once
      [of "[''assets/sql/create-settings.sql'' \<mapsto> ''A'',
            ''assets/sql/create-instances.sql'' \<mapsto> ''B'']"
          "''assets''" "''A''" "''B''" None "\<lambda>sql st. st"
          "\<lparr>settings_tbl = Some [], instances_tbl = Some ([] :: nat list)\<rparr>" "[]"]
    first_run_inserts_defaults_once
      [of "[''assets/sql/create-settings.sql'' \<mapsto> ''A'',
            ''assets/sql/create-instances.sql'' \<mapsto> ''B'']"
          "''assets''" "''A''" "''B''" None "\<lambda>sql st. st"
          "\<lparr>settings_tbl = Some [\<lparr>hostname = ''dev01'', extractMsi = 1\<rparr>],
            instances_tbl = Some ([] :: nat list)\<rparr>"
          "[\<lparr>hostname = ''dev01'', extractMsi = 1\<rparr>]"]
  by (simp add: getAssetPath_def create_schema_def default_settings_def db_all_settings_def)

text \<open>
  C9. When the startup query \<open>SELECT * FROM settings\<close> reports an error, the callback
  logs the message and goes on to \<open>rows.length\<close> with \<open>rows\<close> undefined: it throws a
  TypeError, and no store is returned.
\<close>

theorem settings_read_error_falls_through:
  assumes "fs (getAssetPath resources ''sql/create-settings.sql'') = Some sql1"
    and "fs (getAssetPath resources ''sql/create-instances.sql'') = Some sql2"
    and "db_all_settings io (create_schema exec sql1 sql2 st) = (Some e, rows)"
  shows "rows = None
       \<and> settings_callback (Some e) rows (create_schema exec sql1 sql2 st)
           = ([[e]], Inl (TypeError ''rows.length''))
       \<and> initialize fs resources exec io st = ([[e]], Inl (TypeError ''rows.length''))"
proof -
  have r: "rows = None"
    using assms(3) by (auto simp add: db_all_settings_def split: option.splits)
  show ?thesis
    using assms(3) by (simp add: r initialize_readable [OF assms(1,2)] settings_callback_def)
qed

theorem settings_read_error_falls_through_witness:
  "initialize
     [''assets/sql/create-settings.sql'' \<mapsto> ''A'',
      ''assets/sql/create-instances.sql'' \<mapsto> ''B'']
     ''assets'' (\<lambda>sql st. st) (Some ''SQLITE_IOERR: disk I/O error'')
     \<lparr>settings_tbl = Some [], instances_tbl = Some ([] :: nat list)\<rparr>
   = ([[''SQLITE_IOERR: disk I/O error'']], Inl (TypeError ''rows.length''))"
  using settings_read_error_falls_through
      [of "[''assets/sql/create-settings.sql'' \<mapsto> ''A'',
            ''assets/sql/create-instances.sql'' \<mapsto> ''B'']"
          "''assets''" "''A''" "''B''" "Some ''SQLITE_IOERR: disk I/O error''" "\<lambda>sql st. st"
          "\<lparr>settings_tbl = Some [], instances_tbl = Some ([] :: nat list)\<rparr>"
          "''SQLITE_IOERR: disk I/O error''" None]
  by (simp add: getAssetPath_def db_all_settings_def)

section \<open>Properties of the scheduler\<close>

lemma parse_every_15:
  "parse_cron ''*/15 * * * *'' =
     Some \<lparr>c_minute = Every 15, c_hour = Any, c_mday = Any, c_month = Any, c_wday = Any\<rparr>"
  by (simp add: parse_cron_def parse_field_def parse_nat_def is_digit_def)

lemma quarter_hour: "(t mod 60 = 0 \<and> t div 60 mod 60 mod 15 = 0) = (t mod 900 = (0::nat))"
proof -
  have a: "t div 60 mod 60 mod 15 = t div 60 mod 15"
    by (simp add: mod_mod_cancel)
  have b: "60 dvd t \<Longrightarrow> (15 dvd t div 60) = (15 * 60 dvd t)"
    by (rule dvd_div_iff_mult) simp_all
  have c: "(900::nat) dvd t \<Longrightarrow> 60 dvd t"
    by (rule dvd_trans [of 60 900]) simp_all
  show ?thesis
    unfolding a mod_eq_0_iff_dvd using b c by auto
qed

lemma every_15_match:
  assumes "parse_cron ''*/15 * * * *'' = Some e"
  shows "cron_match e (date_of t) = (t mod 900 = 0)"
proof -
  have "e = \<lparr>c_minute = Every 15, c_hour = Any, c_mday = Any, c_month = Any, c_wday = Any\<rparr>"
    using assms by (simp add: parse_every_15)
  then show ?thesis
    using quarter_hour [of t] by (simp add: cron_match_def date_of_def)
qed

lemma run_Nil: "run [] st = st"
  by (simp add: run_def)

lemma run_Cons: "run (ev # evs) st = run evs (step ev st)"
  by (simp add: run_def)

lemma run_append: "run (xs @ ys) st = run ys (run xs st)"
  by (simp add: run_def)

lemma StartTasks_eq:
  assumes "parse_cron ''*/15 * * * *'' = Some e"
  shows "StartTasks w st =
           st\<lparr>console := console st @ [[''Starting tasks'']],
              calls := calls st @ [\<lparr>at = now st, site = Initial, window = w\<rparr>],
              schedules := schedules st @ [(e, w)]\<rparr>"
  using assms by (simp add: StartTasks_def cron_schedule_def GetInstances_def)

lemma fold_cron_task:
  "fold cron_task ts st = st\<lparr>calls := calls st @ tick_calls ts (now st)\<rparr>"
proof (induction ts arbitrary: st)
  case Nil
  show ?case by (simp add: tick_calls_def)
next
  case (Cons t ts)
  have "fold cron_task (t # ts) st = fold cron_task ts (cron_task t st)"
    by simp
  also have "\<dots> = (cron_task t st)\<lparr>calls := calls (cron_task t st)
                 @ tick_calls ts (now (cron_task t st))\<rparr>"
    by (rule Cons.IH)
  also have "\<dots> = st\<lparr>calls := calls st @ tick_calls (t # ts) (now st)\<rparr>"
    by (simp add: cron_task_def GetInstances_def tick_calls_def)
  finally show ?case .
qed

lemma second_idle:
  assumes "timeouts st = []"
  shows "second st = st\<lparr>now := now st + 1, calls := calls st @ tick_calls (schedules st) (now st + 1)\<rparr>"
  using assms by (cases st) (simp add: second_def fold_cron_task Let_def)

lemma second_wait:
  assumes "timeouts st = [d]" and "now st + 1 < d" and "schedules st = []"
  shows "second st = st\<lparr>now := now st + 1\<rparr>"
  using assms by (cases st) (simp add: second_def fold_cron_task Let_def tick_calls_def)

lemma second_due:
  assumes "timeouts st = [now st + 1]" and "schedules st = []"
  shows "second st = on_timeout (st\<lparr>now := now st + 1, timeouts := []\<rparr>)"
  using assms by (cases st) (simp add: second_def fold_cron_task Let_def tick_calls_def)

lemma step_frame:
  assumes "ev \<noteq> Ready" and "ev \<noteq> Second"
  shows "timeouts (step ev st) = timeouts st \<and> schedules (step ev st) = schedules st
       \<and> calls (step ev st) = calls st \<and> now (step ev st) = now st"
  using assms by (cases ev) (simp_all add: open_callback_def split: option.split)

lemma run_idle:
  assumes "Ready \<notin> set evs" and "timeouts st = []"
  shows "timeouts (run evs st) = [] \<and> schedules (run evs st) = schedules st
       \<and> now (run evs st) = now st + count_list evs Second
       \<and> calls (run evs st) = calls st
            @ concat (map (tick_calls (schedules st))
                 [now st + 1 ..< now st + 1 + count_list evs Second])"
  using assms
proof (induction evs arbitrary: st)
  case Nil
  then show ?case by (simp add: run_Nil)
next
  case (Cons ev evs)
  have nr: "Ready \<notin> set evs" and ne: "ev \<noteq> Ready"
    using Cons.prems(1) by auto
  show ?case
  proof (cases "ev = Second")
    case True
    let ?s = "second st"
    have s: "?s = st\<lparr>now := now st + 1,
                     calls := calls st @ tick_calls (schedules st) (now st + 1)\<rparr>"
      using Cons.prems(2) by (rule second_idle)
    have t: "timeouts ?s = []"
      using Cons.prems(2) by (simp add: s)
    have u: "[now st + 1 ..< now st + 1 + Suc (count_list evs Second)]
               = (now st + 1) # [now st + 2 ..< now st + 2 + count_list evs Second]"
      by (simp add: upt_conv_Cons)
    show ?thesis
      using Cons.IH [OF nr t] True u by (simp add: run_Cons s)
  next
    case False
    have t: "timeouts (step ev st) = []"
      using step_frame [OF ne False, of st] Cons.prems(2) by simp
    show ?thesis
      using Cons.IH [OF nr t] step_frame [OF ne False, of st] False by (simp add: run_Cons)
  qed
qed

lemma run_waiting:
  assumes "Ready \<notin> set evs" and "timeouts st = [d]" and "schedules st = []"
    and "now st + count_list evs Second < d"
  shows "timeouts (run evs st) = [d] \<and> schedules (run evs st) = []
       \<and> now (run evs st) = now st + count_list evs Second
       \<and> calls (run evs st) = calls st"
  using assms
proof (induction evs arbitrary: st)
  case Nil
  then show ?case by (simp add: run_Nil)
next
  case (Cons ev evs)
  have nr: "Ready \<notin> set evs" and ne: "ev \<noteq> Ready"
    using Cons.prems(1) by auto
  show ?case
  proof (cases "ev = Second")
    case True
    have lt: "now st + 1 < d"
      using Cons.prems(4) True by simp
    have s: "second st = st\<lparr>now := now st + 1\<rparr>"
      using Cons.prems(2) lt Cons.prems(3) by (rule second_wait)
    have "timeouts (second st) = [d]" "schedules (second st) = []"
      "now (second st) + count_list evs Second < d"
      using Cons.prems True by (simp_all add: s)
    from Cons.IH [OF nr this] show ?thesis
      using True by (simp add: run_Cons s)
  next
    case False
    note f = step_frame [OF ne False, of st]
    have "timeouts (step ev st) = [d]" "schedules (step ev st) = []"
      "now (step ev st) + count_list evs Second < d"
      using Cons.prems False f by simp_all
    from Cons.IH [OF nr this] show ?thesis
      using False f by (simp add: run_Cons)
  qed
qed

lemma tick_calls_Nil: "tick_calls [] = (\<lambda>t. [])"
  by (rule ext) (simp add: tick_calls_def)

lemma concat_map_Nil: "concat (map (\<lambda>t. []) xs) = []"
  by (induction xs) simp_all

lemma initial_of_ticks:
  "filter (\<lambda>c. site c = Initial) (concat (map (tick_calls ts) xs)) = []"
  by (induction xs) (simp_all add: tick_calls_def filter_map comp_def)

lemma times_of_ticks:
  assumes "parse_cron ''*/15 * * * *'' = Some e"
  shows "map at (filter (\<lambda>c. site c = Scheduled) (concat (map (tick_calls [(e, w)]) xs)))
           = filter (\<lambda>t. t mod 900 = 0) xs"
  by (induction xs) (simp_all add: tick_calls_def every_15_match [OF assms])

lemma before_timer:
  assumes "Ready \<notin> set before" and "Ready \<notin> set pre" and "count_list pre Second = 4"
  shows "timeouts (run (before @ Ready # pre) (boot t0)) = [t0 + count_list before Second + 5]
       \<and> schedules (run (before @ Ready # pre) (boot t0)) = []
       \<and> now (run (before @ Ready # pre) (boot t0)) = t0 + count_list before Second + 4
       \<and> calls (run (before @ Ready # pre) (boot t0)) = []"
proof -
  let ?s0 = "run before (boot t0)"
  have b: "timeouts ?s0 = [] \<and> schedules ?s0 = [] \<and> now ?s0 = t0 + count_list before Second
         \<and> calls ?s0 = []"
    using run_idle [OF assms(1), of "boot t0"]
    by (simp add: boot_def tick_calls_Nil concat_map_Nil)
  let ?s1 = "step Ready ?s0"
  have r: "timeouts ?s1 = [t0 + count_list before Second + 5] \<and> schedules ?s1 = []
         \<and> now ?s1 = t0 + count_list before Second \<and> calls ?s1 = []"
    using b by (simp add: on_ready_def)
  have "timeouts (run pre ?s1) = [t0 + count_list before Second + 5]
      \<and> schedules (run pre ?s1) = []
      \<and> now (run pre ?s1) = now ?s1 + count_list pre Second
      \<and> calls (run pre ?s1) = calls ?s1"
    by (rule run_waiting) (use r assms in simp_all)
  then show ?thesis
    using r assms(3) by (simp add: run_append run_Cons)
qed

lemma lifetime_closed:
  assumes "Ready \<notin> set before" and "Ready \<notin> set pre" and "count_list pre Second = 4"
    and "Ready \<notin> set post"
    and "mainWindow (run (before @ Ready # pre) (boot t0)) = None"
  shows "calls (run (before @ Ready # pre @ Second # post) (boot t0)) = []
       \<and> schedules (run (before @ Ready # pre @ Second # post) (boot t0)) = []"
proof -
  let ?st = "run (before @ Ready # pre) (boot t0)"
  note bt = before_timer [OF assms(1-3), of t0]
  have due: "timeouts ?st = [now ?st + 1]"
    using bt by simp
  have "second ?st = on_timeout (?st\<lparr>now := now ?st + 1, timeouts := []\<rparr>)"
    using due bt by (intro second_due) simp_all
  then have s: "second ?st = ?st\<lparr>now := now ?st + 1, timeouts := []\<rparr>"
    using assms(5) by (simp add: on_timeout_def)
  have "timeouts (second ?st) = []"
    by (simp add: s)
  from run_idle [OF assms(4) this]
  have "calls (run post (second ?st)) = [] \<and> schedules (run post (second ?st)) = []"
    using bt by (simp add: s tick_calls_Nil concat_map_Nil)
  moreover have "run (before @ Ready # pre @ Second # post) (boot t0) = run post (second ?st)"
    using run_append [of "before @ Ready # pre" "Second # post" "boot t0"]
    by (simp add: run_Cons)
  ultimately show ?thesis by simp
qed

lemma lifetime_started:
  assumes "Ready \<notin> set before" and "Ready \<notin> set pre" and "count_list pre Second = 4"
    and "Ready \<notin> set post"
    and "mainWindow (run (before @ Ready # pre) (boot t0)) = Some w"
    and "parse_cron ''*/15 * * * *'' = Some e"
  shows "calls (run (before @ Ready # pre @ Second # post) (boot t0)) =
           \<lparr>at = t0 + count_list before Second + 5, site = Initial, window = w\<rparr>
           # concat (map (tick_calls [(e, w)])
               [t0 + count_list before Second + 6
                  ..< t0 + count_list before Second + 6 + count_list post Second])
       \<and> schedules (run (before @ Ready # pre @ Second # post) (boot t0)) = [(e, w)]"
proof -
  let ?st = "run (before @ Ready # pre) (boot t0)"
  note bt = before_timer [OF assms(1-3), of t0]
  have due: "timeouts ?st = [now ?st + 1]"
    using bt by simp
  have "second ?st = on_timeout (?st\<lparr>now := now ?st + 1, timeouts := []\<rparr>)"
    using due bt by (intro second_due) simp_all
  then have s: "second ?st = StartTasks w (?st\<lparr>now := now ?st + 1, timeouts := []\<rparr>)"
    using assms(5) by (simp add: on_timeout_def)
  have f: "timeouts (second ?st) = [] \<and> schedules (second ?st) = [(e, w)]
         \<and> now (second ?st) = t0 + count_list before Second + 5
         \<and> calls (second ?st) = [\<lparr>at = t0 + count_list before Second + 5, site = Initial,
                                   window = w\<rparr>]"
    using bt by (simp add: s StartTasks_eq [OF assms(6)])
  then have "timeouts (second ?st) = []"
    by simp
  from run_idle [OF assms(4) this]
  have "calls (run post (second ?st)) =
           \<lparr>at = t0 + count_list before Second + 5, site = Initial, window = w\<rparr>
           # concat (map (tick_calls [(e, w)])
               [t0 + count_list before Second + 6
                  ..< t0 + count_list before Second + 6 + count_list post Second])
       \<and> schedules (run post (second ?st)) = [(e, w)]"
    using f by (simp add: ac_simps)
  moreover have "run (before @ Ready # pre @ Second # post) (boot t0) = run post (second ?st)"
    using run_append [of "before @ Ready # pre" "Second # post" "boot t0"]
    by (simp add: run_Cons)
  ultimately show ?thesis by simp
qed

lemma quarter_hours_between:
  "filter (\<lambda>t. t mod 900 = 0) [a + 1 ..< a + 1 + m]
     = map (\<lambda>k. 900 * k) [a div 900 + 1 ..< (a + m) div 900 + 1]"
proof (induction m)
  case 0
  show ?case by simp
next
  case (Suc m)
  have le: "a div 900 \<le> (a + m) div 900"
    by (rule div_le_mono) simp
  show ?case
  proof (cases "Suc (a + m) mod 900 = 0")
    case True
    then have d: "Suc (a + m) div 900 = Suc ((a + m) div 900)"
      by (simp add: div_Suc)
    have "900 * (Suc (a + m) div 900) = Suc (a + m)"
      using True by (simp add: mod_eq_0_iff_dvd)
    then have v: "900 * Suc ((a + m) div 900) = Suc (a + m)"
      by (simp only: d)
    show ?thesis
      using Suc.IH True le v by (simp add: d)
  next
    case False
    then have d: "Suc (a + m) div 900 = (a + m) div 900"
      by (simp add: div_Suc)
    show ?thesis
      using Suc.IH False by (simp add: d)
  qed
qed

lemma nth_multiples:
  assumes "n < length (map (\<lambda>k. 900 * k) [i ..< j])"
  shows "map (\<lambda>k. 900 * k) [i ..< j] ! n = 900 * (i + n)"
  using assms by simp

lemmas sched_eval =
  run_def boot_def on_ready_def second_def on_timeout_def StartTasks_def GetInstances_def
  cron_schedule_def parse_every_15 cron_task_def cron_match_def date_of_def open_callback_def

subsection \<open>The claims about the scheduler\<close>

text \<open>
  A lifetime of the process is \<open>before @ Ready # pre @ Second # post\<close>: readiness comes
  once, \<open>pre\<close> holds the first four seconds after it, and the next \<open>Second\<close> is the one
  in which the startup timer fires.

  C10. The pipeline starts only if \<open>mainWindow\<close> is not null when the startup timer
  fires. If it is null then, \<open>GetInstances\<close> is never invoked and no schedule is ever
  armed, whatever happens later; if it holds a window, the first invocation is the
  initial run with that window, five seconds after readiness, and the schedule
  \<open>'*/15 * * * *'\<close> is armed with it.
\<close>

theorem pipeline_starts_only_with_window:
  assumes "Ready \<notin> set before" and "Ready \<notin> set pre" and "count_list pre Second = 4"
    and "Ready \<notin> set post"
  shows "(mainWindow (run (before @ Ready # pre) (boot t0)) = None \<longrightarrow>
            calls (run (before @ Ready # pre @ Second # post) (boot t0)) = []
          \<and> schedules (run (before @ Ready # pre @ Second # post) (boot t0)) = [])
       \<and> (\<forall>w. mainWindow (run (before @ Ready # pre) (boot t0)) = Some w \<longrightarrow>
            take 1 (calls (run (before @ Ready # pre @ Second # post) (boot t0))) =
              [\<lparr>at = now (run before (boot t0)) + 5, site = Initial, window = w\<rparr>]
          \<and> (\<exists>e. parse_cron ''*/15 * * * *'' = Some e
                \<and> schedules (run (before @ Ready # pre @ Second # post) (boot t0)) = [(e, w)]))"
proof -
  have n: "now (run before (boot t0)) = t0 + count_list before Second"
    using run_idle [OF assms(1), of "boot t0"] by (simp add: boot_def)
  show ?thesis
    using lifetime_closed [OF assms, of t0]
      lifetime_started [OF assms _ parse_every_15, of t0]
    by (simp add: n parse_every_15)
qed

theorem pipeline_starts_only_with_window_witness:
  "calls (run [Ready, Second, Second, Second, Second, Second, WindowCreated 1, Second]
            (boot 0)) = []
   \<and> schedules (run [Ready, Second, Second, Second, Second, Second, WindowCreated 1, Second]
            (boot 0)) = []
   \<and> take 1 (calls (run [Ready, WindowCreated 1, Second, Second, Second, Second, Second,
            WindowClosed, Second] (boot 0))) = [\<lparr>at = 5, site = Initial, window = 1\<rparr>]
   \<and> schedules (run [Ready, WindowCreated 1, Second, Second, Second, Second, Second,
            WindowClosed, Second] (boot 0))
       = [(\<lparr>c_minute = Every 15, c_hour = Any, c_mday = Any, c_month = Any, c_wday = Any\<rparr>, 1)]"
  using
    pipeline_starts_only_with_window
      [of "[]" "[Second, Second, Second, Second]" "[WindowCreated 1, Second]" 0]
    pipeline_starts_only_with_window
      [of "[]" "[WindowCreated 1, Second, Second, Second, Second]" "[WindowClosed, Second]" 0]
  by (simp add: sched_eval)

text \<open>
  C4, as stated, fails: the window is created six seconds after readiness, the startup
  timer has found \<open>mainWindow\<close> null, and the initial run never fires.
\<close>

theorem initial_run_needs_window_counterexample:
  "initial_runs (run [Ready, Second, Second, Second, Second, Second, WindowCreated 1, Second]
     (boot 0)) = []"
  by (simp add: initial_runs_def sched_eval)

text \<open>
  C4, amended. If \<open>mainWindow\<close> is not null when the startup timer fires, the initial
  run fires exactly once in the lifetime of the process, five seconds after readiness,
  whatever the wall clock shows (so wherever that instant lies between two quarter
  hours); if \<open>mainWindow\<close> is null at that instant, the initial run never fires.
\<close>

theorem initial_run_once_after_delay:
  assumes "Ready \<notin> set before" and "Ready \<notin> set pre" and "count_list pre Second = 4"
    and "Ready \<notin> set post"
  shows "initial_runs (run (before @ Ready # pre @ Second # post) (boot t0)) =
           (case mainWindow (run (before @ Ready # pre) (boot t0)) of
              None \<Rightarrow> []
            | Some w \<Rightarrow> [\<lparr>at = now (run before (boot t0)) + 5, site = Initial, window = w\<rparr>])"
proof (cases "mainWindow (run (before @ Ready # pre) (boot t0))")
  case None
  then show ?thesis
    using lifetime_closed [OF assms None] by (simp add: initial_runs_def)
next
  case (Some w)
  have n: "now (run before (boot t0)) = t0 + count_list before Second"
    using run_idle [OF assms(1), of "boot t0"] by (simp add: boot_def)
  show ?thesis
    using lifetime_started [OF assms Some parse_every_15]
    by (simp add: Some n initial_runs_def initial_of_ticks)
qed

theorem initial_run_once_after_delay_witness:
  "initial_runs (run [Second, Second, Ready, WindowCreated 7, Second, Second, Second, Second,
      Second, Second, RunFinished, Second] (boot 893))
     = [\<lparr>at = 900, site = Initial, window = 7\<rparr>]
   \<and> initial_runs (run [Second, Second, Ready, Second, Second, Second, Second,
      Second, WindowCreated 7, Second, Second] (boot 893)) = []"
  using initial_run_once_after_delay
      [of "[Second, Second]" "[WindowCreated 7, Second, Second, Second, Second]"
          "[Second, RunFinished, Second]" 893]
    initial_run_once_after_delay
      [of "[Second, Second]" "[Second, Second, Second, Second]"
          "[WindowCreated 7, Second, Second]" 893]
  by (simp add: sched_eval)

text \<open>
  C3, as stated, fails: the process starts at 00:14:50 (second 890), and the first
  scheduled run is at 00:15:00 (second 900), ten seconds and not fifteen minutes after
  the start.
\<close>

theorem ticks_not_from_start_counterexample:
  "scheduled_times (run [Ready, WindowCreated 1, Second, Second, Second, Second, Second,
      Second, Second, Second, Second, Second] (boot 890)) = [900]
   \<and> scheduled_times (run [Ready, WindowCreated 1, Second, Second, Second, Second, Second,
      Second, Second, Second, Second, Second] (boot 890)) ! 0 \<noteq> 890 + 15 * 60 * 1"
  by (simp add: scheduled_times_def sched_eval)

text \<open>
  C3, amended. Once \<open>StartTasks\<close> has armed the schedule, at second \<open>a\<close> of the wall
  clock (five seconds after readiness), the scheduled runs are exactly at the seconds
  after \<open>a\<close> that 900 divides (minute 0, 15, 30 and 45 of every hour, second 0),
  whether or not earlier runs have ended and whenever the process started: counting
  from 1, the \<open>n\<close>th scheduled run is at second \<open>900 * (a div 900 + n)\<close>, the \<open>n\<close>th
  quarter hour of the wall clock after \<open>a\<close>.
\<close>

theorem recurring_ticks_on_quarter_hours:
  assumes "Ready \<notin> set before" and "Ready \<notin> set pre" and "count_list pre Second = 4"
    and "Ready \<notin> set post"
    and "mainWindow (run (before @ Ready # pre) (boot t0)) = Some w"
  shows "scheduled_times (run (before @ Ready # pre @ Second # post) (boot t0)) =
           filter (\<lambda>t. t mod 900 = 0)
             [now (run before (boot t0)) + 6
                ..< now (run before (boot t0)) + 6 + count_list post Second]
       \<and> scheduled_times (run (before @ Ready # pre @ Second # post) (boot t0)) =
           map (\<lambda>k. 900 * k)
             [(now (run before (boot t0)) + 5) div 900 + 1
                ..< (now (run before (boot t0)) + 5 + count_list post Second) div 900 + 1]
       \<and> (\<forall>n < length (scheduled_times (run (before @ Ready # pre @ Second # post) (boot t0))).
            scheduled_times (run (before @ Ready # pre @ Second # post) (boot t0)) ! n
              = 900 * ((now (run before (boot t0)) + 5) div 900 + 1 + n))"
proof -
  let ?a = "now (run before (boot t0)) + 5"
  let ?F = "run (before @ Ready # pre @ Second # post) (boot t0)"
  have n: "now (run before (boot t0)) = t0 + count_list before Second"
    using run_idle [OF assms(1), of "boot t0"] by (simp add: boot_def)
  have e: "[now (run before (boot t0)) + 6
              ..< now (run before (boot t0)) + 6 + count_list post Second]
           = [?a + 1 ..< ?a + 1 + count_list post Second]"
    by (simp add: ac_simps)
  have 0: "scheduled_times ?F =
             filter (\<lambda>t. t mod 900 = 0)
               [now (run before (boot t0)) + 6
                  ..< now (run before (boot t0)) + 6 + count_list post Second]"
    using lifetime_started [OF assms parse_every_15]
    by (simp add: n scheduled_times_def times_of_ticks [OF parse_every_15])
  have 2: "scheduled_times ?F =
             map (\<lambda>k. 900 * k) [?a div 900 + 1 ..< (?a + count_list post Second) div 900 + 1]"
    unfolding 0 e by (rule quarter_hours_between)
  have 3: "\<forall>n < length (scheduled_times ?F).
             scheduled_times ?F ! n = 900 * (?a div 900 + 1 + n)"
    unfolding 2 using nth_multiples by blast
  show ?thesis
    using 0 2 3 by blast
qed

theorem recurring_ticks_on_quarter_hours_witness:
  "scheduled_times (run [Ready, WindowCreated 1, Second, Second, Second, Second, Second,
      Second, Second, Second, RunFinished, Second, Second] (boot 890)) = [900]"
  using recurring_ticks_on_quarter_hours
      [of "[]" "[WindowCreated 1, Second, Second, Second, Second]"
          "[Second, Second, Second, RunFinished, Second, Second]" 890 1]
  by (simp add: sched_eval)

text \<open>
  C2, as stated, fails: the initial run starts at second 899 and has not ended when the
  schedule ticks at second 900; the tick invokes \<open>GetInstances\<close> again, and two runs
  are in progress.
\<close>

theorem tick_while_running_counterexample:
  "calls (run [Ready, WindowCreated 1, Second, Second, Second, Second, Second, Second]
      (boot 894))
     = [\<lparr>at = 899, site = Initial, window = 1\<rparr>, \<lparr>at = 900, site = Scheduled, window = 1\<rparr>]
   \<and> in_flight (run [Ready, WindowCreated 1, Second, Second, Second, Second, Second]
      (boot 894)) = 1
   \<and> in_flight (run [Ready, WindowCreated 1, Second, Second, Second, Second, Second, Second]
      (boot 894)) = 2"
  by (simp add: in_flight_def sched_eval)

text \<open>
  C2, amended. Every tick of the schedule invokes \<open>GetInstances\<close>, also while earlier
  runs are in progress: main.ts keeps no record of a running pipeline, drops no tick
  and queues none.
\<close>

theorem every_tick_invokes_pipeline:
  assumes "parse_cron ''*/15 * * * *'' = Some e"
    and "timeouts st = []" and "schedules st = [(e, w)]" and "(now st + 1) mod 900 = 0"
  shows "calls (step Second st) = calls st @ [\<lparr>at = now st + 1, site = Scheduled, window = w\<rparr>]
       \<and> finished (step Second st) = finished st
       \<and> (0 < in_flight st \<longrightarrow> in_flight (step Second st) = in_flight st + 1)"
  using assms(3,4)
  by (auto simp add: second_idle [OF assms(2)] tick_calls_def every_15_match [OF assms(1)]
      in_flight_def)

theorem every_tick_invokes_pipeline_witness:
  "calls (step Second
      (run [Ready, WindowCreated 1, Second, Second, Second, Second, Second] (boot 894)))
     = [\<lparr>at = 899, site = Initial, window = 1\<rparr>, \<lparr>at = 900, site = Scheduled, window = 1\<rparr>]
   \<and> finished (step Second
      (run [Ready, WindowCreated 1, Second, Second, Second, Second, Second] (boot 894))) = 0
   \<and> in_flight (step Second
      (run [Ready, WindowCreated 1, Second, Second, Second, Second, Second] (boot 894))) = 2"
  using every_tick_invokes_pipeline
      [of "\<lparr>c_minute = Every 15, c_hour = Any, c_mday = Any, c_month = Any, c_wday = Any\<rparr>"
          "run [Ready, WindowCreated 1, Second, Second, Second, Second, Second] (boot 894)" 1]
  by (simp add: in_flight_def sched_eval)

subsection \<open>A database that cannot be opened\<close>

lemma console_fields:
  assumes "a\<lparr>console := []\<rparr> = b\<lparr>console := []\<rparr>"
  shows "now a = now b" and "mainWindow a = mainWindow b" and "timeouts a = timeouts b"
    and "schedules a = schedules b" and "calls a = calls b" and "finished a = finished b"
  using assms by (cases a; cases b; simp)+

lemma on_timeout_console:
  assumes "a\<lparr>console := []\<rparr> = b\<lparr>console := []\<rparr>"
  shows "(on_timeout a)\<lparr>console := []\<rparr> = (on_timeout b)\<lparr>console := []\<rparr>"
  using assms
  by (cases a; cases b)
    (simp add: on_timeout_def StartTasks_def cron_schedule_def GetInstances_def
      parse_every_15 split: option.split)

lemma fold_on_timeout_console:
  assumes "a\<lparr>console := []\<rparr> = b\<lparr>console := []\<rparr>"
  shows "(fold (\<lambda>d. on_timeout) ds a)\<lparr>console := []\<rparr>
           = (fold (\<lambda>d. on_timeout) ds b)\<lparr>console := []\<rparr>"
  using assms
proof (induction ds arbitrary: a b)
  case Nil
  then show ?case by simp
next
  case (Cons d ds)
  from Cons.IH [OF on_timeout_console [OF Cons.prems]] show ?case by simp
qed

lemma second_console:
  assumes "a\<lparr>console := []\<rparr> = b\<lparr>console := []\<rparr>"
  shows "(second a)\<lparr>console := []\<rparr> = (second b)\<lparr>console := []\<rparr>"
proof -
  note f = console_fields [OF assms]
  let ?due = "filter (\<lambda>d. d \<le> now a + 1) (timeouts a)"
  let ?upd = "\<lambda>s. s\<lparr>now := now a + 1, calls := calls a @ tick_calls (schedules a) (now a + 1),
                     timeouts := filter (\<lambda>d. \<not> d \<le> now a + 1) (timeouts a)\<rparr>"
  have 1: "second a = fold (\<lambda>d. on_timeout) ?due (?upd a)"
    by (simp add: second_def fold_cron_task Let_def)
  have 2: "second b = fold (\<lambda>d. on_timeout) ?due (?upd b)"
    by (simp add: second_def fold_cron_task Let_def f [symmetric])
  have "(?upd a)\<lparr>console := []\<rparr> = (?upd b)\<lparr>console := []\<rparr>"
    using assms by (cases a; cases b) simp
  then show ?thesis
    unfolding 1 2 by (rule fold_on_timeout_console)
qed

lemma step_console:
  assumes "a\<lparr>console := []\<rparr> = b\<lparr>console := []\<rparr>"
  shows "(step ev a)\<lparr>console := []\<rparr> = (step ev b)\<lparr>console := []\<rparr>"
proof (cases ev)
  case Second
  then show ?thesis using second_console [OF assms] by simp
next
  case (DbOpened err)
  then show ?thesis
    using assms by (cases a; cases b) (simp add: open_callback_def split: option.split)
qed (use assms in \<open>(cases a; cases b; simp add: on_ready_def)+\<close>)

lemma run_console:
  assumes "a\<lparr>console := []\<rparr> = b\<lparr>console := []\<rparr>"
  shows "(run evs a)\<lparr>console := []\<rparr> = (run evs b)\<lparr>console := []\<rparr>"
  using assms
proof (induction evs arbitrary: a b)
  case Nil
  then show ?case by (simp add: run_Nil)
next
  case (Cons ev evs)
  from Cons.IH [OF step_console [OF Cons.prems]] show ?case by (simp add: run_Cons)
qed

text \<open>
  C5, as stated, fails: the database cannot be opened, and the process neither stops nor
  raises an error. The callback of line 85 writes to the console, and five seconds after
  readiness the pipeline starts as usual.
\<close>

theorem open_failure_counterexample:
  "main [''assets/sql/create-settings.sql'' \<mapsto> ''A'',
         ''assets/sql/create-instances.sql'' \<mapsto> ''B''] ''assets'' 0 = Inr (boot 0)
   \<and> run [DbOpened (Some ''SQLITE_CANTOPEN: unable to open database file''), Ready,
          WindowCreated 1, Second, Second, Second, Second, Second] (boot 0)
     = \<lparr>now = 5, mainWindow = Some 1, timeouts = [],
        schedules = [(\<lparr>c_minute = Every 15, c_hour = Any, c_mday = Any, c_month = Any,
                       c_wday = Any\<rparr>, 1)],
        calls = [\<lparr>at = 5, site = Initial, window = 1\<rparr>], finished = 0,
        console = [[''Database opening error: '',
                    ''SQLITE_CANTOPEN: unable to open database file''],
                   [''Starting tasks'']]\<rparr>"
  by (simp add: main_def read_schema_def readFileSync_def getAssetPath_def sched_eval)

text \<open>
  C5, amended. When both schema files can be read the module loads whatever the
  database does; a failure to open it adds one console entry and changes nothing else
  in any later state of the process, so the pipeline runs as it would have. When a
  schema file cannot be read, \<open>readFileSync\<close> throws while the module loads and no
  process state exists: no timer is registered and no pipeline runs.
\<close>

theorem open_failure_logged_not_fatal:
  "(fs (getAssetPath resources ''sql/create-settings.sql'') \<noteq> None
      \<and> fs (getAssetPath resources ''sql/create-instances.sql'') \<noteq> None \<longrightarrow>
        main fs resources t0 = Inr (boot t0))
   \<and> step (DbOpened (Some e)) st
        = st\<lparr>console := console st @ [[''Database opening error: '', e]]\<rparr>
   \<and> (run evs (step (DbOpened (Some e)) st))\<lparr>console := []\<rparr> = (run evs st)\<lparr>console := []\<rparr>
   \<and> (fs (getAssetPath resources ''sql/create-settings.sql'') = None \<longrightarrow>
        main fs resources t0 = Inl (FileError (getAssetPath resources ''sql/create-settings.sql'')))
   \<and> (fs (getAssetPath resources ''sql/create-settings.sql'') \<noteq> None
      \<and> fs (getAssetPath resources ''sql/create-instances.sql'') = None \<longrightarrow>
        main fs resources t0 =
          Inl (FileError (getAssetPath resources ''sql/create-instances.sql'')))"
proof -
  have "(step (DbOpened (Some e)) st)\<lparr>console := []\<rparr> = st\<lparr>console := []\<rparr>"
    by (simp add: open_callback_def)
  then have "(run evs (step (DbOpened (Some e)) st))\<lparr>console := []\<rparr>
               = (run evs st)\<lparr>console := []\<rparr>"
    by (rule run_console)
  then show ?thesis
    by (auto simp add: main_def read_schema_def readFileSync_def open_callback_def)
qed

theorem open_failure_logged_not_fatal_witness:
  "main [''assets/sql/create-settings.sql'' \<mapsto> ''A'',
         ''assets/sql/create-instances.sql'' \<mapsto> ''B''] ''assets'' 0 = Inr (boot 0)
   \<and> calls (run [Ready, WindowCreated 1, Second, Second, Second, Second, Second]
        (step (DbOpened (Some ''SQLITE_CANTOPEN'')) (boot 0)))
       = [\<lparr>at = 5, site = Initial, window = 1\<rparr>]
   \<and> main [''assets/sql/create-instances.sql'' \<mapsto> ''B''] ''assets'' 0
       = Inl (FileError ''assets/sql/create-settings.sql'')
   \<and> main [''assets/sql/create-settings.sql'' \<mapsto> ''A''] ''assets'' 0
       = Inl (FileError ''assets/sql/create-instances.sql'')"
  using
    open_failure_logged_not_fatal
      [of "[''assets/sql/create-settings.sql'' \<mapsto> ''A'',
            ''assets/sql/create-instances.sql'' \<mapsto> ''B'']" "''assets''" 0
          "''SQLITE_CANTOPEN''" "boot 0"
          "[Ready, WindowCreated 1, Second, Second, Second, Second, Second]"]
    open_failure_logged_not_fatal
      [of "[''assets/sql/create-instances.sql'' \<mapsto> ''B'']" "''assets''" 0
          "''SQLITE_CANTOPEN''" "boot 0" "[]"]
    open_failure_logged_not_fatal
      [of "[''assets/sql/create-settings.sql'' \<mapsto> ''A'']" "''assets''" 0
          "''SQLITE_CANTOPEN''" "boot 0" "[]"]
  by (simp add: getAssetPath_def sched_eval)

section \<open>Properties of the model taken from the specification\<close>

lemma schema_files_read:
  "read_schema (schema_files resources) resources = Inr (create_settings_sql, create_instances_sql)"
  by (simp add: read_schema_def readFileSync_def schema_files_def getAssetPath_def)

lemma create_schema_tables:
  "settings_tbl (create_schema schema_exec create_settings_sql create_instances_sql st)
     = Some (case settings_tbl st of None \<Rightarrow> [] | Some rs \<Rightarrow> rs)
   \<and> instances_tbl (create_schema schema_exec create_settings_sql create_instances_sql st)
     = Some (case instances_tbl st of None \<Rightarrow> [] | Some rs \<Rightarrow> rs)"
  by (simp add: create_schema_def schema_exec_def create_settings_sql_def
      create_instances_sql_def split: option.split)

lemma create_schema_present:
  assumes "settings_tbl st \<noteq> None" and "instances_tbl st \<noteq> None"
  shows "create_schema schema_exec create_settings_sql create_instances_sql st = st"
  using assms
  by (auto simp add: create_schema_def schema_exec_def create_settings_sql_def
      create_instances_sql_def)

lemma initialize_spec:
  "snd (initialize (schema_files resources) resources schema_exec None st) =
     Inr (let st' = create_schema schema_exec create_settings_sql create_instances_sql st
          in if settings_tbl st' = Some [] then st'\<lparr>settings_tbl := Some [default_settings]\<rparr>
             else st')"
  using create_schema_tables [of st]
  by (auto simp add: initialize_def schema_files_read db_all_settings_def settings_callback_def
      insert_settings_def Let_def split: option.split)

text \<open>
  C6. With schema statements that create a table only when it is absent, the
  schema-creation step changes nothing in a store that has both tables, and
  initialising the store that one initialisation has left gives that same store.
\<close>

theorem initialization_idempotent:
  "(settings_tbl st \<noteq> None \<and> instances_tbl st \<noteq> None \<longrightarrow>
      create_schema schema_exec create_settings_sql create_instances_sql st = st)
   \<and> (\<exists>st1. snd (initialize (schema_files resources) resources schema_exec None st) = Inr st1
         \<and> snd (initialize (schema_files resources) resources schema_exec None st1) = Inr st1)"
proof -
  let ?cs = "create_schema schema_exec create_settings_sql create_instances_sql"
  let ?st1 = "if settings_tbl (?cs st) = Some []
              then (?cs st)\<lparr>settings_tbl := Some [default_settings]\<rparr> else ?cs st"
  have 1: "snd (initialize (schema_files resources) resources schema_exec None st) = Inr ?st1"
    by (simp add: initialize_spec Let_def)
  have p: "settings_tbl ?st1 \<noteq> None \<and> instances_tbl ?st1 \<noteq> None
         \<and> settings_tbl ?st1 \<noteq> Some []"
    using create_schema_tables [of st] by auto
  then have "?cs ?st1 = ?st1"
    using create_schema_present by blast
  then have 2: "snd (initialize (schema_files resources) resources schema_exec None ?st1)
                  = Inr ?st1"
    using p by (simp only: initialize_spec Let_def if_False)
  show ?thesis
    using 1 2 create_schema_present by blast
qed

theorem initialization_idempotent_witness:
  "create_schema schema_exec create_settings_sql create_instances_sql
     \<lparr>settings_tbl = Some [\<lparr>hostname = ''dev01'', extractMsi = 1\<rparr>],
      instances_tbl = Some [3 :: nat]\<rparr>
     = \<lparr>settings_tbl = Some [\<lparr>hostname = ''dev01'', extractMsi = 1\<rparr>],
        instances_tbl = Some [3]\<rparr>
   \<and> snd (initialize (schema_files ''assets'') ''assets'' schema_exec None
        \<lparr>settings_tbl = Some [\<lparr>hostname = ''localhost'', extractMsi = 0\<rparr>],
         instances_tbl = Some ([] :: nat list)\<rparr>)
     = snd (initialize (schema_files ''assets'') ''assets'' schema_exec None
        \<lparr>settings_tbl = None, instances_tbl = (None :: nat list option)\<rparr>)"
  using initialization_idempotent
      [of "\<lparr>settings_tbl = Some [\<lparr>hostname = ''dev01'', extractMsi = 1\<rparr>],
            instances_tbl = Some [3 :: nat]\<rparr>" "''assets''"]
    initialization_idempotent
      [of "\<lparr>settings_tbl = None, instances_tbl = (None :: nat list option)\<rparr>" "''assets''"]
  by (simp add: initialize_spec create_schema_def schema_exec_def create_settings_sql_def
      create_instances_sql_def default_settings_def)

lemma find_map_same:
  assumes "\<And>x. P (f x) = P x"
  shows "find P (map f xs) = map_option f (find P xs)"
  by (induction xs) (simp_all add: assms)

lemma find_holds:
  assumes "find P xs = Some y"
  shows "P y"
  using assms by (induction xs) (simp_all split: if_splits)

lemma lookup_after_update:
  "lookup_row k
     (map (\<lambda>x. if row_id x = k then x\<lparr>row_status := s, row_metadata := m, last_seen := t\<rparr>
                else x) rs)
     = map_option (\<lambda>x. x\<lparr>row_status := s, row_metadata := m, last_seen := t\<rparr>)
         (lookup_row k rs)"
proof -
  let ?f = "\<lambda>x. if row_id x = k then x\<lparr>row_status := s, row_metadata := m, last_seen := t\<rparr>
                 else x"
  have "find (\<lambda>x. row_id x = k) (map ?f rs) = map_option ?f (find (\<lambda>x. row_id x = k) rs)"
    by (rule find_map_same) simp
  moreover have "map_option ?f (find (\<lambda>x. row_id x = k) rs)
      = map_option (\<lambda>x. x\<lparr>row_status := s, row_metadata := m, last_seen := t\<rparr>)
          (find (\<lambda>x. row_id x = k) rs)"
  proof (cases "find (\<lambda>x. row_id x = k) rs")
    case None
    then show ?thesis by simp
  next
    case (Some y)
    then have "row_id y = k"
      by (rule find_holds)
    then show ?thesis using Some by simp
  qed
  ultimately show ?thesis
    by (simp add: lookup_row_def)
qed

lemma lookup_after_insert:
  assumes "lookup_row k rs = None"
  shows "lookup_row k (rs @ [x]) = (if row_id x = k then Some x else None)"
  using assms by (induction rs) (simp_all add: lookup_row_def split: if_splits)

lemma reconcile_one_present_same:
  assumes "lookup_row (ident r) (inst_rows st) = Some x" and "same_attributes r x"
  shows "reconcile_one wfail t r (cs, st) = (cs\<lparr>unchanged := unchanged cs @ [ident r]\<rparr>, st)"
  using assms by (simp add: reconcile_one_def)

lemma reconcile_one_then_same:
  assumes "\<not> wfail r"
  shows "\<exists>x. lookup_row (ident r) (inst_rows (snd (reconcile_one wfail t r (cs, st)))) = Some x
           \<and> same_attributes r x"
proof (cases "lookup_row (ident r) (inst_rows st)")
  case None
  then show ?thesis
    using assms
    by (simp add: reconcile_one_def upsertInstance_def lookup_after_insert same_attributes_def)
next
  case (Some x)
  show ?thesis
  proof (cases "same_attributes r x")
    case True
    then show ?thesis using Some by (simp add: reconcile_one_def)
  next
    case False
    then show ?thesis
      using Some assms
      by (simp add: reconcile_one_def upsertInstance_def lookup_after_update
          same_attributes_def)
  qed
qed

text \<open>The scenario of section 8 of the specification.\<close>

lemma reconcile_scenario:
  "reconcile (\<lambda>r. False) 10
     [\<lparr>ident = ''A'', status = ''up'', metadata = []\<rparr>,
      \<lparr>ident = ''B'', status = ''down'', metadata = []\<rparr>]
     \<lparr>inst_rows = [], inst_writes = 0\<rparr>
   = (\<lparr>added = [''A'', ''B''], updated = [], unchanged = [], failed = []\<rparr>,
      \<lparr>inst_rows = [\<lparr>row_id = ''A'', row_status = ''up'', row_metadata = [], last_seen = 10\<rparr>,
                    \<lparr>row_id = ''B'', row_status = ''down'', row_metadata = [],
                     last_seen = 10\<rparr>],
       inst_writes = 2\<rparr>)"
  and "fst (reconcile (\<lambda>r. False) 20
     [\<lparr>ident = ''A'', status = ''up'', metadata = []\<rparr>,
      \<lparr>ident = ''B'', status = ''up'', metadata = []\<rparr>]
     \<lparr>inst_rows = [\<lparr>row_id = ''A'', row_status = ''up'', row_metadata = [], last_seen = 10\<rparr>,
                   \<lparr>row_id = ''B'', row_status = ''down'', row_metadata = [],
                    last_seen = 10\<rparr>],
      inst_writes = 2\<rparr>)
   = \<lparr>added = [], updated = [''B''], unchanged = [''A''], failed = []\<rparr>"
  by (simp_all add: reconcile_def reconcile_one_def upsertInstance_def lookup_row_def
      same_attributes_def no_changes_def)

text \<open>
  C7. A fetched record that is stored already with the same mutable attributes is
  classified \<open>unchanged\<close> and the store stays as it is, its count of writes included;
  this is the case for a record reconciled a second time, right after a reconciliation
  that could write it.
\<close>

theorem reconcile_unchanged_no_write:
  "(\<forall>x. lookup_row (ident r) (inst_rows st) = Some x \<and> same_attributes r x \<longrightarrow>
        reconcile_one wfail t r (cs, st) = (cs\<lparr>unchanged := unchanged cs @ [ident r]\<rparr>, st))
   \<and> (\<not> wfail r \<longrightarrow>
        reconcile_one wfail t' r (cs', snd (reconcile_one wfail t r (cs, st)))
          = (cs'\<lparr>unchanged := unchanged cs' @ [ident r]\<rparr>,
             snd (reconcile_one wfail t r (cs, st))))"
  using reconcile_one_present_same reconcile_one_then_same by blast

theorem reconcile_unchanged_no_write_witness:
  "reconcile_one (\<lambda>r. False) 20 \<lparr>ident = ''A'', status = ''up'', metadata = []\<rparr>
     (no_changes,
      \<lparr>inst_rows = [\<lparr>row_id = ''A'', row_status = ''up'', row_metadata = [], last_seen = 10\<rparr>],
       inst_writes = 1\<rparr>)
     = (\<lparr>added = [], updated = [], unchanged = [''A''], failed = []\<rparr>,
        \<lparr>inst_rows = [\<lparr>row_id = ''A'', row_status = ''up'', row_metadata = [], last_seen = 10\<rparr>],
         inst_writes = 1\<rparr>)
   \<and> reconcile_one (\<lambda>r. False) 20 \<lparr>ident = ''B'', status = ''down'', metadata = []\<rparr>
       (no_changes,
        snd (reconcile_one (\<lambda>r. False) 10 \<lparr>ident = ''B'', status = ''down'', metadata = []\<rparr>
          (no_changes, \<lparr>inst_rows = [], inst_writes = 0\<rparr>)))
     = (\<lparr>added = [], updated = [], unchanged = [''B''], failed = []\<rparr>,
        \<lparr>inst_rows = [\<lparr>row_id = ''B'', row_status = ''down'', row_metadata = [],
                       last_seen = 10\<rparr>],
         inst_writes = 1\<rparr>)"
  using
    reconcile_unchanged_no_write
      [of "\<lparr>ident = ''A'', status = ''up'', metadata = []\<rparr>"
          "\<lparr>inst_rows = [\<lparr>row_id = ''A'', row_status = ''up'', row_metadata = [],
                          last_seen = 10\<rparr>], inst_writes = 1\<rparr>"
          "\<lambda>r. False" 20 no_changes 20 no_changes]
    reconcile_unchanged_no_write
      [of "\<lparr>ident = ''B'', status = ''down'', metadata = []\<rparr>"
          "\<lparr>inst_rows = [], inst_writes = 0\<rparr>"
          "\<lambda>r. False" 10 no_changes 20 no_changes]
  by (simp add: reconcile_one_def upsertInstance_def lookup_row_def same_attributes_def
      no_changes_def)

lemma lookup_None_iff: "(lookup_row k rs = None) = (k \<notin> set (map row_id rs))"
  by (auto simp add: lookup_row_def find_None_iff)

lemma update_keeps_ids:
  "map row_id
     (map (\<lambda>x. if row_id x = k then x\<lparr>row_status := s, row_metadata := m, last_seen := t\<rparr>
                else x) rs) = map row_id rs"
  by (induction rs) simp_all

lemma reconcile_one_ids:
  "map row_id (inst_rows (snd (reconcile_one wfail t r (cs, st)))) =
     (if ident r \<in> set (map row_id (inst_rows st)) \<or> wfail r then map row_id (inst_rows st)
      else map row_id (inst_rows st) @ [ident r])"
proof (cases "lookup_row (ident r) (inst_rows st)")
  case None
  then show ?thesis
    using lookup_None_iff [of "ident r" "inst_rows st"]
    by (simp add: reconcile_one_def upsertInstance_def)
next
  case (Some x)
  then have "ident r \<in> set (map row_id (inst_rows st))"
    using lookup_None_iff [of "ident r" "inst_rows st"] by simp
  then show ?thesis
    using Some by (simp add: reconcile_one_def upsertInstance_def update_keeps_ids)
qed

lemma reconcile_one_inv:
  assumes "distinct (map row_id (inst_rows (snd acc)))"
  shows "distinct (map row_id (inst_rows (snd (reconcile_one wfail t r acc))))
       \<and> set (map row_id (inst_rows (snd acc)))
           \<subseteq> set (map row_id (inst_rows (snd (reconcile_one wfail t r acc))))
       \<and> (\<not> wfail r \<longrightarrow>
            ident r \<in> set (map row_id (inst_rows (snd (reconcile_one wfail t r acc)))))"
  using assms reconcile_one_ids [of wfail t r "fst acc" "snd acc"] by auto

lemma fold_reconcile_inv:
  assumes "distinct (map row_id (inst_rows (snd acc)))"
  shows "distinct (map row_id (inst_rows (snd (fold (reconcile_one wfail t) fetched acc))))
       \<and> set (map row_id (inst_rows (snd acc)))
           \<subseteq> set (map row_id (inst_rows (snd (fold (reconcile_one wfail t) fetched acc))))
       \<and> (\<forall>r \<in> set fetched. \<not> wfail r \<longrightarrow>
            ident r \<in> set (map row_id
              (inst_rows (snd (fold (reconcile_one wfail t) fetched acc)))))"
  using assms
proof (induction fetched arbitrary: acc)
  case Nil
  then show ?case by simp
next
  case (Cons r fetched)
  note one = reconcile_one_inv [OF Cons.prems, of wfail t r]
  from one have "distinct (map row_id (inst_rows (snd (reconcile_one wfail t r acc))))"
    by simp
  from Cons.IH [OF this] one show ?case
    by simp blast
qed

lemma reconcile_inv:
  assumes "distinct (map row_id (inst_rows st))"
  shows "distinct (map row_id (inst_rows (snd (reconcile wfail t fetched st))))
       \<and> set (map row_id (inst_rows st))
           \<subseteq> set (map row_id (inst_rows (snd (reconcile wfail t fetched st))))
       \<and> (\<forall>r \<in> set fetched. \<not> wfail r \<longrightarrow>
            ident r \<in> set (map row_id (inst_rows (snd (reconcile wfail t fetched st)))))"
  using fold_reconcile_inv [of "(no_changes, st)" wfail t fetched] assms
  by (simp add: reconcile_def)

lemma reconcile_all_inv:
  assumes "distinct (map row_id (inst_rows st))"
  shows "distinct (map row_id (inst_rows (reconcile_all wfail fetches st)))
       \<and> set (map row_id (inst_rows st))
           \<subseteq> set (map row_id (inst_rows (reconcile_all wfail fetches st)))
       \<and> (\<forall>f \<in> set fetches. \<forall>r \<in> set (snd f). \<not> wfail r \<longrightarrow>
            ident r \<in> set (map row_id (inst_rows (reconcile_all wfail fetches st))))"
  using assms
proof (induction fetches arbitrary: st)
  case Nil
  then show ?case by (simp add: reconcile_all_def)
next
  case (Cons f fetches)
  let ?s = "snd (reconcile wfail (fst f) (snd f) st)"
  note one = reconcile_inv [OF Cons.prems, of wfail "fst f" "snd f"]
  have e: "reconcile_all wfail (f # fetches) st = reconcile_all wfail fetches ?s"
    by (simp add: reconcile_all_def)
  from one have "distinct (map row_id (inst_rows ?s))"
    by simp
  from Cons.IH [OF this] one show ?case
    unfolding e by simp blast
qed

lemma distinct_key_once:
  assumes "distinct (map f xs)" and "k \<in> set (map f xs)"
  shows "length (filter (\<lambda>x. f x = k) xs) = 1"
  using assms
proof (induction xs)
  case Nil
  then show ?case by simp
next
  case (Cons x xs)
  show ?case
  proof (cases "f x = k")
    case True
    then have "k \<notin> set (map f xs)"
      using Cons.prems(1) by auto
    then have "filter (\<lambda>x. f x = k) xs = []"
      by (auto simp add: filter_empty_conv)
    then show ?thesis using True by simp
  next
    case False
    then show ?thesis using Cons by auto
  qed
qed

text \<open>
  C8. Reconciling any sequence of fetch results in a store whose rows have distinct
  identity keys leaves a store whose rows have distinct identity keys, and every
  fetched record whose write the storage accepts has exactly one row.
\<close>

theorem identity_keys_unique:
  assumes "distinct (map row_id (inst_rows st))"
  shows "distinct (map row_id (inst_rows (reconcile_all wfail fetches st)))
       \<and> (\<forall>f \<in> set fetches. \<forall>r \<in> set (snd f). \<not> wfail r \<longrightarrow>
            length (filter (\<lambda>x. row_id x = ident r)
              (inst_rows (reconcile_all wfail fetches st))) = 1)"
proof -
  note inv = reconcile_all_inv [OF assms, of wfail fetches]
  have d: "distinct (map row_id (inst_rows (reconcile_all wfail fetches st)))"
    using inv by simp
  have "\<forall>f \<in> set fetches. \<forall>r \<in> set (snd f). \<not> wfail r \<longrightarrow>
          length (filter (\<lambda>x. row_id x = ident r)
            (inst_rows (reconcile_all wfail fetches st))) = 1"
  proof (intro ballI impI)
    fix f r
    assume "f \<in> set fetches" and "r \<in> set (snd f)" and "\<not> wfail r"
    then have "ident r \<in> set (map row_id (inst_rows (reconcile_all wfail fetches st)))"
      using inv by blast
    with d show "length (filter (\<lambda>x. row_id x = ident r)
        (inst_rows (reconcile_all wfail fetches st))) = 1"
      by (rule distinct_key_once)
  qed
  with d show ?thesis by simp
qed

theorem identity_keys_unique_witness:
  "map row_id (inst_rows (reconcile_all (\<lambda>r. False)
      [(10, [\<lparr>ident = ''A'', status = ''up'', metadata = []\<rparr>,
             \<lparr>ident = ''B'', status = ''down'', metadata = []\<rparr>,
             \<lparr>ident = ''A'', status = ''down'', metadata = []\<rparr>]),
       (20, [\<lparr>ident = ''A'', status = ''up'', metadata = []\<rparr>,
             \<lparr>ident = ''B'', status = ''up'', metadata = []\<rparr>])]
      \<lparr>inst_rows = [], inst_writes = 0\<rparr>)) = [''A'', ''B'']
   \<and> length (filter (\<lambda>x. row_id x = ''A'') (inst_rows (reconcile_all (\<lambda>r. False)
      [(10, [\<lparr>ident = ''A'', status = ''up'', metadata = []\<rparr>,
             \<lparr>ident = ''B'', status = ''down'', metadata = []\<rparr>,
             \<lparr>ident = ''A'', status = ''down'', metadata = []\<rparr>]),
       (20, [\<lparr>ident = ''A'', status = ''up'', metadata = []\<rparr>,
             \<lparr>ident = ''B'', status = ''up'', metadata = []\<rparr>])]
      \<lparr>inst_rows = [], inst_writes = 0\<rparr>))) = 1"
  using identity_keys_unique
      [of "\<lparr>inst_rows = [], inst_writes = 0\<rparr>" "\<lambda>r. False"
          "[(10, [\<lparr>ident = ''A'', status = ''up'', metadata = []\<rparr>,
                  \<lparr>ident = ''B'', status = ''down'', metadata = []\<rparr>,
                  \<lparr>ident = ''A'', status = ''down'', metadata = []\<rparr>]),
            (20, [\<lparr>ident = ''A'', status = ''up'', metadata = []\<rparr>,
                  \<lparr>ident = ''B'', status = ''up'', metadata = []\<rparr>])]"]
  by (simp add: reconcile_all_def reconcile_def reconcile_one_def upsertInstance_def
      lookup_row_def same_attributes_def no_changes_def)

end
